theory Spec2Isabelle
  imports Main "HOL-Library.Word"
begin

section \<open>The region group of dirty\_memory\_manager.cc\<close>

text \<open>
  A shallow embedding of \<^verbatim>\<open>region_group\<close> and \<^verbatim>\<open>allocation_queue\<close> of
  \<^verbatim>\<open>src/dirty_memory_manager.cc\<close>. The counters are 64-bit: \<^verbatim>\<open>size_t\<close> and
  \<^verbatim>\<open>ssize_t\<close> are both \<open>64 word\<close>, on which \<open>+\<close> and unary minus wrap. The
  thresholds are \<^verbatim>\<open>size_t\<close> (the source compares one with
  \<^verbatim>\<open>std::numeric_limits<size_t>::max()\<close>), so every comparison of a counter with a
  threshold is the unsigned one, which is \<open><\<close> on words.
\<close>

subsection \<open>Data\<close>

type_synonym size_t = "64 word"
type_synonym ssize_t = "64 word"
type_synonym addr = nat
type_synonym handle = nat
type_synonym request = nat

text \<open>
  A \<^verbatim>\<open>size_tracked_region\<close> as the group sees it: the two sizes it reads through
  \<^verbatim>\<open>occupancy().total_space()\<close> and \<^verbatim>\<open>evictable_occupancy().total_space()\<close>,
  and the field \<^verbatim>\<open>_heap_handle\<close>. The sizes are supplied by the allocator; no function
  of the source file changes them.
\<close>

record size_tracked_region =
  occupancy_total_space :: size_t
  evictable_occupancy_total_space :: size_t
  heap_handle :: "handle option"

text \<open>
  Modelled from the spec: the type \<^verbatim>\<open>region_heap\<close> of \<^verbatim>\<open>_regions\<close> (declared in
  dirty\_memory\_manager.hh, a heap of the boost library). The spec describes it as an
  addressable priority structure over tracked regions, ordered by descending evictable
  occupancy, with insert returning a handle, remove by handle and peek of the maximum.
  The model keeps the entries (handle, region pointer) in insertion order; the order of
  the structure is computed from the comparator when it is read.
\<close>

type_synonym region_heap = "(handle \<times> addr) list"

text \<open>
  Modelled from the spec: \<^verbatim>\<open>reclaim_config\<close> (dirty\_memory\_manager.hh), of which the
  source reads the three thresholds through \<^verbatim>\<open>soft_limit_threshold()\<close>,
  \<^verbatim>\<open>throttle_threshold()\<close> and \<^verbatim>\<open>hard_throttle_threshold()\<close>.
\<close>

record reclaim_config =
  soft_limit_threshold :: size_t
  throttle_threshold :: size_t
  hard_throttle_threshold :: size_t

datatype error = blocked_requests_timed_out_error string

text \<open>
  Modelled from the spec: the queue type of \<^verbatim>\<open>allocation_queue::_blocked_requests\<close>
  (an expiring FIFO of the seastar library). Its entries are the queued requests, each
  with its expiry deadline, front first; it holds the expiry handler
  \<^verbatim>\<open>on_request_expiry{_name}\<close>, of which \<open>on_expiry_name\<close> is the field \<^verbatim>\<open>_name\<close>.
\<close>

record allocation_queue =
  on_expiry_name :: string
  queued :: "(request \<times> nat) list"

text \<open>
  The three states of the releaser task of the spec, and \<open>No_task\<close> for a group built
  with \<^verbatim>\<open>make_ready_future<>()\<close> instead of \<^verbatim>\<open>start_releaser\<close>.
\<close>

datatype releaser_state = No_task | Running | Suspended_awaiting_relief | Terminated

datatype notification = Soft_pressure | Soft_relief

text \<open>
  The region group, the memory its regions live in and the effects it has on its
  collaborators:
  \<^item> \<open>cfg\<close> to \<open>shutdown_requested\<close> are the fields of \<^verbatim>\<open>region_group\<close> that the
    source file names, and \<open>under_pressure\<close> the latch that \<^verbatim>\<open>under_pressure()\<close> reads;
  \<^item> \<open>relief_signalled\<close> and \<open>relief_signal_calls\<close> are the condition variable
    \<^verbatim>\<open>_relief\<close>: a signal that found no waiter, and the number of calls of
    \<^verbatim>\<open>signal()\<close> so far;
  \<^item> \<open>releaser\<close> is the task behind the future \<^verbatim>\<open>_releaser\<close>;
  \<^item> \<open>memory\<close> maps the address of a region to the region;
  \<^item> \<open>notifications\<close> are the soft-pressure notifications sent so far, oldest first;
  \<^item> \<open>allocated\<close> lists the requests whose \<^verbatim>\<open>allocate()\<close> has run, \<open>failed\<close> the
    requests whose \<^verbatim>\<open>fail()\<close> has run, with the error;
  \<^item> \<open>next_request\<close> is the identity of the next request object, \<open>clock\<close> the time.
\<close>

record state =
  cfg :: reclaim_config
  regions :: region_heap
  total_memory :: size_t
  hard_total_memory :: size_t
  under_pressure :: bool
  under_hard_pressure :: bool
  blocked_requests :: allocation_queue
  shutdown_requested :: bool
  relief_signalled :: bool
  relief_signal_calls :: nat
  releaser :: releaser_state
  memory :: "addr \<Rightarrow> size_tracked_region"
  notifications :: "notification list"
  allocated :: "request list"
  failed :: "(request \<times> error) list"
  next_request :: request
  clock :: nat

subsection \<open>The priority structure\<close>

text \<open>\<^verbatim>\<open>region_evictable_occupancy_ascending_less_comparator::operator()\<close>.\<close>

definition region_evictable_occupancy_ascending_less_comparator ::
  "(addr \<Rightarrow> size_tracked_region) \<Rightarrow> addr \<Rightarrow> addr \<Rightarrow> bool" where
  "region_evictable_occupancy_ascending_less_comparator m r1 r2 =
     (evictable_occupancy_total_space (m r1) < evictable_occupancy_total_space (m r2))"

text \<open>The key the comparator compares: the evictable space of the region an entry points to.\<close>

definition entry_key :: "(addr \<Rightarrow> size_tracked_region) \<Rightarrow> handle \<times> addr \<Rightarrow> size_t" where
  "entry_key m e = evictable_occupancy_total_space (m (snd e))"

text \<open>
  Modelled from the spec: the iteration of \<^verbatim>\<open>region_heap\<close> from \<^verbatim>\<open>ordered_begin()\<close>
  to \<^verbatim>\<open>ordered_end()\<close> (boost heap, absent): the entries by descending evictable
  occupancy.
\<close>

definition heap_ordered :: "(addr \<Rightarrow> size_tracked_region) \<Rightarrow> region_heap \<Rightarrow> (handle \<times> addr) list" where
  "heap_ordered m h = rev (sort_key (entry_key m) h)"



text \<open>
  Modelled from the spec: the handle that \<^verbatim>\<open>push\<close> of \<^verbatim>\<open>region_heap\<close> (boost heap,
  absent) returns identifies the new entry, so it is one that no entry of the heap has:
  here the successor of the greatest handle in the heap.
\<close>

primrec max_handle :: "region_heap \<Rightarrow> handle" where
  "max_handle [] = 0"
| "max_handle (e # es) = max (fst e) (max_handle es)"

definition fresh_handle :: "region_heap \<Rightarrow> handle" where
  "fresh_handle h = Suc (max_handle h)"

text \<open>
  Modelled from the spec: \<^verbatim>\<open>push\<close> of \<^verbatim>\<open>region_heap\<close> (boost heap, absent): insert,
  returning the handle of the new entry.
\<close>

definition heap_push :: "region_heap \<Rightarrow> addr \<Rightarrow> region_heap \<times> handle" where
  "heap_push h r = (h @ [(fresh_handle h, r)], fresh_handle h)"

text \<open>
  Modelled from the spec: \<^verbatim>\<open>erase\<close> of \<^verbatim>\<open>region_heap\<close> (boost heap, absent): remove
  the entry of a handle.
\<close>

definition heap_erase :: "region_heap \<Rightarrow> handle \<Rightarrow> region_heap" where
  "heap_erase h x = filter (\<lambda>e. fst e \<noteq> x) h"

subsection \<open>Pressure\<close>

text \<open>
  Modelled from the spec: \<^verbatim>\<open>notify_soft_pressure\<close> (dirty\_memory\_manager.hh,
  absent): a notification to an external observer, which holds the soft latch.
\<close>

definition notify_soft_pressure :: "state \<Rightarrow> state" where
  "notify_soft_pressure st = st\<lparr>notifications := notifications st @ [Soft_pressure]\<rparr>"

text \<open>
  Modelled from the spec: \<^verbatim>\<open>notify_soft_relief\<close> (dirty\_memory\_manager.hh, absent):
  a notification to the same observer.
\<close>

definition notify_soft_relief :: "state \<Rightarrow> state" where
  "notify_soft_relief st = st\<lparr>notifications := notifications st @ [Soft_relief]\<rparr>"

text \<open>
  Modelled from the spec: \<^verbatim>\<open>notify_pressure\<close> (dirty\_memory\_manager.hh, absent)
  sets the latch "under throttle pressure", which \<^verbatim>\<open>under_pressure()\<close> reads and which
  is the field \<open>under_pressure\<close> of the state.
\<close>

definition notify_pressure :: "state \<Rightarrow> state" where
  "notify_pressure st = st\<lparr>under_pressure := True\<rparr>"

text \<open>
  Modelled from the spec: \<^verbatim>\<open>notify_relief\<close> (dirty\_memory\_manager.hh, absent) clears
  that latch.
\<close>

definition notify_relief :: "state \<Rightarrow> state" where
  "notify_relief st = st\<lparr>under_pressure := False\<rparr>"

text \<open>
  Modelled from the spec: \<^verbatim>\<open>signal()\<close> of the condition variable \<^verbatim>\<open>_relief\<close>
  (seastar, absent). A signal wakes the releaser when it is suspended on the condition
  and is kept pending otherwise; several pending signals are one.
\<close>

definition relief_signal :: "state \<Rightarrow> state" where
  "relief_signal st =
     (if releaser st = Suspended_awaiting_relief
      then st\<lparr>releaser := Running, relief_signal_calls := Suc (relief_signal_calls st)\<rparr>
      else st\<lparr>relief_signalled := True, relief_signal_calls := Suc (relief_signal_calls st)\<rparr>)"

text \<open>
  Modelled from the spec: \<^verbatim>\<open>wait()\<close> of the condition variable \<^verbatim>\<open>_relief\<close> (seastar,
  absent). A wait with a pending signal returns at once; otherwise the releaser is
  suspended until a signal.
\<close>

definition relief_wait :: "state \<Rightarrow> state" where
  "relief_wait st =
     (if relief_signalled st then st\<lparr>relief_signalled := False\<rparr>
      else st\<lparr>releaser := Suspended_awaiting_relief\<rparr>)"

text \<open>\<^verbatim>\<open>region_group::execution_permitted\<close>.\<close>

definition execution_permitted :: "state \<Rightarrow> bool" where
  "execution_permitted st = (\<not> (under_pressure st \<or> under_hard_pressure st))"

text \<open>
  \<^verbatim>\<open>region_group::reclaimer_can_block\<close>; \<open>- 1\<close> is
  \<^verbatim>\<open>std::numeric_limits<size_t>::max()\<close>, the word of 64 ones.
\<close>

definition reclaimer_can_block :: "reclaim_config \<Rightarrow> bool" where
  "reclaimer_can_block c = (throttle_threshold c \<noteq> (- 1))"

text \<open>\<^verbatim>\<open>region_group::notify_pressure_relieved\<close>.\<close>

definition notify_pressure_relieved :: "state \<Rightarrow> state" where
  "notify_pressure_relieved st = relief_signal st"

text \<open>\<^verbatim>\<open>region_group::do_update_hard_and_check_relief\<close>: the new state and the value returned.\<close>

definition do_update_hard_and_check_relief :: "state \<Rightarrow> ssize_t \<Rightarrow> state \<times> bool" where
  "do_update_hard_and_check_relief st delta =
     (let st1 = st\<lparr>hard_total_memory := hard_total_memory st + delta\<rparr> in
      if hard_total_memory st1 > hard_throttle_threshold (cfg st1)
      then (st1\<lparr>under_hard_pressure := True\<rparr>, False)
      else if under_hard_pressure st1
      then (st1\<lparr>under_hard_pressure := False\<rparr>, True)
      else (st1, False))"

text \<open>\<^verbatim>\<open>region_group::update_hard\<close>.\<close>

definition update_hard :: "state \<Rightarrow> ssize_t \<Rightarrow> state" where
  "update_hard st delta =
     (case do_update_hard_and_check_relief st delta of
        (st1, r) \<Rightarrow> if r then notify_pressure_relieved st1 else st1)"

text \<open>
  \<^verbatim>\<open>region_group::update\<close>. The pair \<open>(st3, relief1)\<close> is the state and the local
  \<^verbatim>\<open>relief\<close> after the throttle test.
\<close>

definition update :: "state \<Rightarrow> ssize_t \<Rightarrow> state" where
  "update st delta =
     (let st1 = st\<lparr>total_memory := total_memory st + delta\<rparr>;
          st2 = (if total_memory st1 > soft_limit_threshold (cfg st1)
                 then notify_soft_pressure st1 else notify_soft_relief st1);
          (st3, relief1) =
                (if total_memory st2 > throttle_threshold (cfg st2)
                 then (notify_pressure st2, False)
                 else if under_pressure st2 then (notify_relief st2, True)
                 else (st2, False));
          (st4, r) = do_update_hard_and_check_relief st3 delta;
          relief2 = (relief1 \<or> r)
      in if relief2 then notify_pressure_relieved st4 else st4)"

subsection \<open>Regions\<close>



text \<open>Writing the field \<^verbatim>\<open>_heap_handle\<close> of the region at an address.\<close>

definition set_heap_handle :: "state \<Rightarrow> addr \<Rightarrow> handle option \<Rightarrow> state" where
  "set_heap_handle st r x = st\<lparr>memory := (memory st)(r := (memory st r)\<lparr>heap_handle := x\<rparr>)\<rparr>"

text \<open>
  \<^verbatim>\<open>region_group::add\<close>; \<open>None\<close> is the failure of \<^verbatim>\<open>assert(!child->_heap_handle)\<close>.
  The sanity check of the heap is compiled in debug builds only and changes nothing.
\<close>

definition add :: "state \<Rightarrow> addr \<Rightarrow> state option" where
  "add st child =
     (if heap_handle (memory st child) \<noteq> None then None
      else
        let (h, x) = heap_push (regions st) child;
            st1 = set_heap_handle (st\<lparr>regions := h\<rparr>) child (Some x)
        in Some (update st1 (occupancy_total_space (memory st1 child))))"

text \<open>\<^verbatim>\<open>region_group::del\<close>.\<close>

definition del :: "state \<Rightarrow> addr \<Rightarrow> state" where
  "del st child =
     (case heap_handle (memory st child) of
        None \<Rightarrow> st
      | Some x \<Rightarrow>
          let st1 = set_heap_handle st child None;
              st2 = st1\<lparr>regions := heap_erase (regions st1) x\<rparr>
          in update st2 (- occupancy_total_space (memory st2 child)))"

text \<open>\<^verbatim>\<open>region_group::moved\<close>.\<close>

definition moved :: "state \<Rightarrow> addr \<Rightarrow> addr \<Rightarrow> state" where
  "moved st old_address new_address =
     (let st1 = (case heap_handle (memory st old_address) of
                   None \<Rightarrow> st
                 | Some x \<Rightarrow>
                     (set_heap_handle st old_address None)
                       \<lparr>regions := heap_erase (regions st) x\<rparr>);
          (h, y) = heap_push (regions st1) new_address
      in set_heap_handle (st1\<lparr>regions := h\<rparr>) old_address (Some y))"

subsection \<open>The queue of blocked requests\<close>

definition queue_empty :: "allocation_queue \<Rightarrow> bool" where
  "queue_empty q = (queued q = [])"

text \<open>
  \<^verbatim>\<open>allocation_queue::execute_one\<close>, on the queue of the group: the front request
  leaves the queue and its \<^verbatim>\<open>allocate()\<close> runs. \<open>None\<close> stands for the call on an empty
  queue, which the source never makes.
\<close>

definition execute_one :: "state \<Rightarrow> state option" where
  "execute_one st =
     (case queued (blocked_requests st) of
        [] \<Rightarrow> None
      | e # es \<Rightarrow>
          Some (st\<lparr>blocked_requests := (blocked_requests st)\<lparr>queued := es\<rparr>,
                   allocated := allocated st @ [fst e]\<rparr>))"

text \<open>
  \<^verbatim>\<open>allocation_queue::on_request_expiry::operator()\<close>, with the handler's \<^verbatim>\<open>_name\<close>
  as first argument: the request's \<^verbatim>\<open>fail\<close> receives the error.
\<close>

definition on_request_expiry :: "string \<Rightarrow> state \<Rightarrow> request \<Rightarrow> state" where
  "on_request_expiry name st func =
     st\<lparr>failed := failed st @ [(func, blocked_requests_timed_out_error name)]\<rparr>"

text \<open>
  Modelled from the spec: expiry in the queue type (seastar, absent). Every request
  whose deadline has elapsed while it is still queued is removed from the queue, and the
  queue calls its expiry handler on it.
\<close>

definition expire_requests :: "state \<Rightarrow> state" where
  "expire_requests st =
     (let q = blocked_requests st;
          expired = filter (\<lambda>e. snd e \<le> clock st) (queued q);
          st1 = st\<lparr>blocked_requests := q\<lparr>queued := filter (\<lambda>e. \<not> snd e \<le> clock st) (queued q)\<rparr>\<rparr>
      in fold (\<lambda>e s. on_request_expiry (on_expiry_name q) s (fst e)) expired st1)"

text \<open>
  Modelled from the spec: the passing of time up to \<open>t\<close>, with the expiry of the
  requests whose deadline elapses.
\<close>

definition advance_clock :: "state \<Rightarrow> nat \<Rightarrow> state" where
  "advance_clock st t = expire_requests (st\<lparr>clock := max (clock st) t\<rparr>)"

text \<open>
  Modelled from the spec: the enqueue operation (dirty\_memory\_manager.hh, absent),
  which appends a new request object with its deadline to the back of the queue.
\<close>

definition enqueue :: "state \<Rightarrow> nat \<Rightarrow> state" where
  "enqueue st deadline =
     st\<lparr>blocked_requests :=
          (blocked_requests st)\<lparr>queued := queued (blocked_requests st) @ [(next_request st, deadline)]\<rparr>,
        next_request := Suc (next_request st)\<rparr>"

subsection \<open>The releaser\<close>

text \<open>
  One iteration of the loop that \<^verbatim>\<open>region_group::start_releaser\<close> repeats, in the order
  of the source: the shutdown test, the execution of one request, the wait. The
  reclaimer lock taken before the wait belongs to the allocator's tracker, which the
  group does not read; it is left out.
\<close>

definition releaser_iteration :: "state \<Rightarrow> state" where
  "releaser_iteration st =
     (if shutdown_requested st then st\<lparr>releaser := Terminated\<rparr>
      else if \<not> queue_empty (blocked_requests st) \<and> execution_permitted st
      then (case execute_one st of Some st1 \<Rightarrow> st1 | None \<Rightarrow> st)
      else relief_wait st)"

text \<open>The scheduler runs an iteration of the task when the task is runnable.\<close>

definition run_releaser :: "state \<Rightarrow> state" where
  "run_releaser st = (if releaser st = Running then releaser_iteration st else st)"

text \<open>
  The constructor \<^verbatim>\<open>region_group::region_group\<close>, given the memory the regions live
  in. The counters start at zero and the flags cleared; the task is started when the
  reclaimer can block.
\<close>

definition region_group :: "string \<Rightarrow> reclaim_config \<Rightarrow> (addr \<Rightarrow> size_tracked_region) \<Rightarrow> state" where
  "region_group name c m =
     \<lparr>cfg = c, regions = [], total_memory = 0, hard_total_memory = 0,
      under_pressure = False, under_hard_pressure = False,
      blocked_requests = \<lparr>on_expiry_name = name, queued = []\<rparr>,
      shutdown_requested = False, relief_signalled = False, relief_signal_calls = 0,
      releaser = (if reclaimer_can_block c then Running else No_task),
      memory = m, notifications = [], allocated = [], failed = [],
      next_request = 0, clock = 0\<rparr>"

text \<open>
  \<^verbatim>\<open>region_group::shutdown\<close>, and whether the future it returns, \<^verbatim>\<open>_releaser\<close>, is
  resolved.
\<close>

definition shutdown :: "state \<Rightarrow> state" where
  "shutdown st = relief_signal (st\<lparr>shutdown_requested := True\<rparr>)"

definition releaser_future_ready :: "state \<Rightarrow> bool" where
  "releaser_future_ready st = (releaser st = No_task \<or> releaser st = Terminated)"

subsection \<open>Sequences of calls\<close>

text \<open>The three calls as the source takes them, \<^verbatim>\<open>update\<close> with any delta.\<close>

datatype call = Add addr | Del addr | Update ssize_t

fun apply_call :: "state \<Rightarrow> call \<Rightarrow> state option" where
  "apply_call st (Add r) = add st r"
| "apply_call st (Del r) = Some (del st r)"
| "apply_call st (Update d) = Some (update st d)"

text \<open>The sum of \<^verbatim>\<open>occupancy().total_space()\<close> over the regions in the priority structure.\<close>

definition registered_total_space :: "state \<Rightarrow> size_t" where
  "registered_total_space st =
     sum_list (map (\<lambda>e. occupancy_total_space (memory st (snd e))) (regions st))"

text \<open>
  Modelled from the spec: a change of the occupancy of a region (the allocator and the
  listener interface of dirty\_memory\_manager.hh, absent). The allocator changes the
  total space of the region at \<open>r\<close> by \<open>delta\<close>; when the region is registered in the
  group, the group is told through \<^verbatim>\<open>update(delta)\<close>, which the spec describes as
  invoked on every occupancy change of a member region.
\<close>

definition occupancy_changed :: "state \<Rightarrow> addr \<Rightarrow> ssize_t \<Rightarrow> state" where
  "occupancy_changed st r delta =
     (let st1 = st\<lparr>memory := (memory st)
                  (r := (memory st r)\<lparr>occupancy_total_space :=
                          occupancy_total_space (memory st r) + delta\<rparr>)\<rparr>
      in if heap_handle (memory st r) \<noteq> None then update st1 delta else st1)"

text \<open>
  The calls a group receives for its regions: \<^verbatim>\<open>add\<close>, \<^verbatim>\<open>del\<close>, and the
  \<^verbatim>\<open>update(delta)\<close> that reports the change by \<open>delta\<close> of the total space of a region.
\<close>

datatype region_call = Region_add addr | Region_del addr | Region_update addr ssize_t

fun apply_region_call :: "state \<Rightarrow> region_call \<Rightarrow> state option" where
  "apply_region_call st (Region_add r) = add st r"
| "apply_region_call st (Region_del r) = Some (del st r)"
| "apply_region_call st (Region_update r d) = Some (occupancy_changed st r d)"

fun region_calls :: "state \<Rightarrow> region_call list \<Rightarrow> state option" where
  "region_calls st [] = Some st"
| "region_calls st (c # cs) =
     (case apply_region_call st c of None \<Rightarrow> None | Some st1 \<Rightarrow> region_calls st1 cs)"

text \<open>The arguments with which a call invokes \<^verbatim>\<open>update\<close>: none or one.\<close>

fun region_call_deltas :: "state \<Rightarrow> region_call \<Rightarrow> ssize_t list" where
  "region_call_deltas st (Region_add r) =
     (if heap_handle (memory st r) \<noteq> None then [] else [occupancy_total_space (memory st r)])"
| "region_call_deltas st (Region_del r) =
     (if heap_handle (memory st r) = None then [] else [- occupancy_total_space (memory st r)])"
| "region_call_deltas st (Region_update r d) =
     (if heap_handle (memory st r) = None then [] else [d])"

fun deltas_applied :: "state \<Rightarrow> region_call list \<Rightarrow> ssize_t list" where
  "deltas_applied st [] = []"
| "deltas_applied st (c # cs) =
     (case apply_region_call st c of
        None \<Rightarrow> []
      | Some st1 \<Rightarrow> region_call_deltas st c @ deltas_applied st1 cs)"

text \<open>
  What can happen to a group: the calls \<^verbatim>\<open>add\<close>, \<^verbatim>\<open>del\<close> and \<^verbatim>\<open>update\<close>, \<^verbatim>\<open>update_hard\<close>, \<^verbatim>\<open>moved\<close>,
  a new blocked request, the passing of time, a turn of the releaser, \<^verbatim>\<open>shutdown\<close>.
\<close>

datatype event =
    Call call
  | Update_hard ssize_t
  | Moved addr addr
  | Enqueue nat
  | Advance_clock nat
  | Run_releaser
  | Shutdown

fun apply_event :: "state \<Rightarrow> event \<Rightarrow> state option" where
  "apply_event st (Call c) = apply_call st c"
| "apply_event st (Update_hard d) = Some (update_hard st d)"
| "apply_event st (Moved a b) = Some (moved st a b)"
| "apply_event st (Enqueue t) = Some (enqueue st t)"
| "apply_event st (Advance_clock t) = Some (advance_clock st t)"
| "apply_event st Run_releaser = Some (run_releaser st)"
| "apply_event st Shutdown = Some (shutdown st)"

fun events :: "state \<Rightarrow> event list \<Rightarrow> state option" where
  "events st [] = Some st"
| "events st (e # es) = (case apply_event st e of None \<Rightarrow> None | Some st1 \<Rightarrow> events st1 es)"

text \<open>
  The registration invariant of a group whose regions are registered by \<^verbatim>\<open>add\<close> and
  \<^verbatim>\<open>del\<close> only: the handles of the entries are distinct, every entry's region holds
  the entry's handle, and every handle held by a region is that of its entry.
\<close>

definition registered_wf :: "state \<Rightarrow> bool" where
  "registered_wf st =
     (distinct (map fst (regions st)) \<and>
      (\<forall>e \<in> set (regions st). heap_handle (memory st (snd e)) = Some (fst e)) \<and>
      (\<forall>r x. heap_handle (memory st r) = Some x \<longrightarrow> (x, r) \<in> set (regions st)))"

text \<open>
  Two invariants of the queue of blocked requests. \<open>queue_wf\<close>: the queued requests are
  distinct objects, created before \<open>next_request\<close>, as are the executed ones, and no
  queued request has been executed. \<open>settled r\<close>: the request \<open>r\<close> exists, is not
  queued and has not been executed.
\<close>

definition queue_wf :: "state \<Rightarrow> bool" where
  "queue_wf st =
     (distinct (map fst (queued (blocked_requests st))) \<and>
      (\<forall>e \<in> set (queued (blocked_requests st)). fst e < next_request st) \<and>
      (\<forall>r \<in> set (allocated st). r < next_request st) \<and>
      (\<forall>e \<in> set (queued (blocked_requests st)). fst e \<notin> set (allocated st)))"

definition settled :: "request \<Rightarrow> state \<Rightarrow> bool" where
  "settled r st =
     (r < next_request st \<and> r \<notin> fst ` set (queued (blocked_requests st)) \<and>
      r \<notin> set (allocated st))"

subsection \<open>Concrete groups\<close>

text \<open>
  A configuration with three different thresholds; a memory in which no region is registered; the group built on them, and that group
  after \<^verbatim>\<open>add\<close> of the region at address 0, and of the regions at addresses 0 and 1.
\<close>

definition example_config :: reclaim_config where
  "example_config =
     \<lparr>soft_limit_threshold = 500, throttle_threshold = 1000, hard_throttle_threshold = 2000\<rparr>"

definition example_memory :: "addr \<Rightarrow> size_tracked_region" where
  "example_memory a =
     (if a = 0
      then \<lparr>occupancy_total_space = 600, evictable_occupancy_total_space = 100, heap_handle = None\<rparr>
      else \<lparr>occupancy_total_space = 300, evictable_occupancy_total_space = 200, heap_handle = None\<rparr>)"

definition example_group :: state where
  "example_group = region_group ''g'' example_config example_memory"

definition example_group_one :: state where
  "example_group_one = (case add example_group 0 of Some s \<Rightarrow> s | None \<Rightarrow> example_group)"

definition example_group_two :: state where
  "example_group_two = (case add example_group_one 1 of Some s \<Rightarrow> s | None \<Rightarrow> example_group_one)"

section \<open>Pressure and relief\<close>

lemmas update_defs = update_def do_update_hard_and_check_relief_def notify_soft_pressure_def
  notify_soft_relief_def notify_pressure_def notify_relief_def notify_pressure_relieved_def
  relief_signal_def Let_def

lemma update_frame:
  "regions (update st d) = regions st" "memory (update st d) = memory st"
  "total_memory (update st d) = total_memory st + d"
  "hard_total_memory (update st d) = hard_total_memory st + d"
  "cfg (update st d) = cfg st"
  by (simp_all add: update_defs)

text \<open>
  C1. One call of \<^verbatim>\<open>update\<close> signals the relief condition at most once; it signals it
  exactly once if and only if the throttle pressure or the hard pressure went from
  asserted to relieved in that call; an update of a group under neither pressure does
  not signal.
\<close>

theorem update_signals_relief_once:
  "relief_signal_calls (update st delta) \<le> relief_signal_calls st + 1 \<and>
   (relief_signal_calls (update st delta) = relief_signal_calls st + 1) =
     ((under_pressure st \<and> \<not> under_pressure (update st delta)) \<or>
      (under_hard_pressure st \<and> \<not> under_hard_pressure (update st delta))) \<and>
   (\<not> under_pressure st \<and> \<not> under_hard_pressure st \<longrightarrow>
      relief_signal_calls (update st delta) = relief_signal_calls st)"
  by (simp add: update_defs)

theorem update_signals_relief_once_witness:
  "\<not> under_pressure example_group \<and> \<not> under_hard_pressure example_group \<and>
   relief_signal_calls (update example_group 5) = relief_signal_calls example_group"
  using update_signals_relief_once [of example_group 5]
  by (simp add: example_group_def region_group_def)

text \<open>
  C2. \<^verbatim>\<open>execution_permitted()\<close> is true if and only if the group is neither under
  throttle pressure nor under hard pressure.
\<close>

theorem execution_permitted_iff:
  "execution_permitted st = (\<not> under_pressure st \<and> \<not> under_hard_pressure st)"
  by (simp add: execution_permitted_def)

text \<open>
  C4. After \<^verbatim>\<open>update\<close> and after \<^verbatim>\<open>update_hard\<close>, \<open>under_hard_pressure\<close> says whether
  the hard total, as last observed, is above the hard threshold. The helper adds the
  delta to the hard total, sets the flag when the sum is above the threshold, and
  returns true exactly when the flag went from set to cleared in this call; it returns
  false when the flag was clear on entry and the threshold is not exceeded.
\<close>

theorem hard_pressure_latch:
  "under_hard_pressure (update st delta) =
     (hard_throttle_threshold (cfg (update st delta)) < hard_total_memory (update st delta)) \<and>
   under_hard_pressure (update_hard st delta) =
     (hard_throttle_threshold (cfg (update_hard st delta)) < hard_total_memory (update_hard st delta)) \<and>
   hard_total_memory (fst (do_update_hard_and_check_relief st delta)) = hard_total_memory st + delta \<and>
   under_hard_pressure (fst (do_update_hard_and_check_relief st delta)) =
     (hard_throttle_threshold (cfg st) < hard_total_memory st + delta) \<and>
   snd (do_update_hard_and_check_relief st delta) =
     (under_hard_pressure st \<and> \<not> under_hard_pressure (fst (do_update_hard_and_check_relief st delta))) \<and>
   (\<not> under_hard_pressure st \<and> \<not> hard_throttle_threshold (cfg st) < hard_total_memory st + delta \<longrightarrow>
      \<not> snd (do_update_hard_and_check_relief st delta))"
  by (simp add: update_defs update_hard_def)

theorem hard_pressure_latch_witness:
  "\<not> under_hard_pressure example_group \<and>
   \<not> hard_throttle_threshold (cfg example_group) < hard_total_memory example_group + 5 \<and>
   \<not> snd (do_update_hard_and_check_relief example_group 5)"
  using hard_pressure_latch [of example_group 5]
  by (simp add: example_group_def region_group_def example_config_def)

text \<open>
  C10, as the source has it. The three comparisons are strict. An update that leaves the
  total equal to the soft limit sends a soft-relief notification and no soft-pressure
  notification, and one that leaves the total above the soft limit sends a soft-pressure
  notification; one that leaves the total equal to the throttle threshold leaves the
  group not under throttle pressure; one that leaves the hard total equal to the hard
  threshold leaves it not under hard pressure; with both equalities,
  \<^verbatim>\<open>execution_permitted()\<close> is true afterwards.
\<close>

theorem thresholds_strict:
  "(total_memory st + delta = soft_limit_threshold (cfg st) \<longrightarrow>
      notifications (update st delta) = notifications st @ [Soft_relief]) \<and>
   (soft_limit_threshold (cfg st) < total_memory st + delta \<longrightarrow>
      notifications (update st delta) = notifications st @ [Soft_pressure]) \<and>
   (total_memory st + delta = throttle_threshold (cfg st) \<longrightarrow>
      \<not> under_pressure (update st delta)) \<and>
   (hard_total_memory st + delta = hard_throttle_threshold (cfg st) \<longrightarrow>
      \<not> under_hard_pressure (update st delta) \<and> \<not> under_hard_pressure (update_hard st delta)) \<and>
   (total_memory st + delta = throttle_threshold (cfg st) \<and>
    hard_total_memory st + delta = hard_throttle_threshold (cfg st) \<longrightarrow>
      execution_permitted (update st delta))"
  by (simp add: update_defs update_hard_def execution_permitted_def)

lemma example_after_update_hard:
  "cfg (update_hard example_group 1000) = example_config"
  "total_memory (update_hard example_group 1000) = 0"
  "hard_total_memory (update_hard example_group 1000) = 1000"
  "notifications (update_hard example_group 1000) = []"
  by (simp_all add: update_hard_def update_defs example_group_def region_group_def
      example_config_def)

theorem thresholds_strict_witness:
  "total_memory example_group + 500 = soft_limit_threshold (cfg example_group) \<and>
   notifications (update example_group 500) = notifications example_group @ [Soft_relief] \<and>
   total_memory (update_hard example_group 1000) + 1000 =
     throttle_threshold (cfg (update_hard example_group 1000)) \<and>
   hard_total_memory (update_hard example_group 1000) + 1000 =
     hard_throttle_threshold (cfg (update_hard example_group 1000)) \<and>
   soft_limit_threshold (cfg (update_hard example_group 1000)) <
     total_memory (update_hard example_group 1000) + 1000 \<and>
   notifications (update (update_hard example_group 1000) 1000) =
     notifications (update_hard example_group 1000) @ [Soft_pressure] \<and>
   \<not> under_pressure (update (update_hard example_group 1000) 1000) \<and>
   \<not> under_hard_pressure (update (update_hard example_group 1000) 1000) \<and>
   execution_permitted (update (update_hard example_group 1000) 1000)"
proof -
  have a: "total_memory example_group + 500 = soft_limit_threshold (cfg example_group)"
    by (simp add: example_group_def region_group_def example_config_def)
  have b: "total_memory (update_hard example_group 1000) + 1000 =
      throttle_threshold (cfg (update_hard example_group 1000))"
    "hard_total_memory (update_hard example_group 1000) + 1000 =
      hard_throttle_threshold (cfg (update_hard example_group 1000))"
    "soft_limit_threshold (cfg (update_hard example_group 1000)) <
      total_memory (update_hard example_group 1000) + 1000"
    by (simp_all add: example_after_update_hard example_config_def)
  show ?thesis
    using thresholds_strict [of example_group 500]
      thresholds_strict [of "update_hard example_group 1000" 1000] a b
    by blast
qed

text \<open>
  C10, as the spec has it, fails. With the thresholds 500, 1000 and 2000, the update by
  1000 of a group whose total is 0 and whose hard total is 1000 leaves the total equal
  to the throttle threshold and the hard total equal to the hard threshold, and
  execution is permitted; the notification it sends is soft pressure, not soft relief.
\<close>

theorem thresholds_counterexample:
  "total_memory (update (update_hard example_group 1000) 1000) =
     throttle_threshold (cfg (update (update_hard example_group 1000) 1000)) \<and>
   hard_total_memory (update (update_hard example_group 1000) 1000) =
     hard_throttle_threshold (cfg (update (update_hard example_group 1000) 1000)) \<and>
   execution_permitted (update (update_hard example_group 1000) 1000) \<and>
   notifications (update (update_hard example_group 1000) 1000) =
     notifications (update_hard example_group 1000) @ [Soft_pressure] \<and>
   notifications (update (update_hard example_group 1000) 1000) \<noteq>
     notifications (update_hard example_group 1000) @ [Soft_relief]"
  by (simp add: update_hard_def update_defs execution_permitted_def example_group_def
      region_group_def example_config_def)

section \<open>The priority structure\<close>

lemma max_handle_ge: "e \<in> set h \<Longrightarrow> fst e \<le> max_handle h"
  by (induction h) auto

lemma fresh_handle_new: "e \<in> set h \<Longrightarrow> fst e \<noteq> fresh_handle h"
  using max_handle_ge [of e h] by (simp add: fresh_handle_def)

lemma fresh_handle_notin: "fresh_handle h \<notin> fst ` set h"
  by (auto dest: fresh_handle_new)

lemma heap_ordered_cong: "entry_key m' = entry_key m \<Longrightarrow> heap_ordered m' h = heap_ordered m h"
  by (simp add: heap_ordered_def)

lemma filter_heap_ordered:
  "filter P (heap_ordered m h) = heap_ordered m (filter P h)"
  by (simp add: heap_ordered_def rev_filter [symmetric] filter_sort)



text \<open>
  The check of \<^verbatim>\<open>region_group_binomial_group_sanity_check\<close> holds of the model: no
  entry of the ordered iteration compares less than a later one.
\<close>

lemma heap_ordered_sanity:
  "sorted_wrt (\<lambda>a b. \<not> region_evictable_occupancy_ascending_less_comparator m (snd a) (snd b))
     (heap_ordered m h)"
proof -
  have "sorted (map (entry_key m) (sort_key (entry_key m) h))" by (rule sorted_sort_key)
  then have "sorted_wrt (\<lambda>a b. entry_key m a \<le> entry_key m b) (sort_key (entry_key m) h)"
    by (simp add: sorted_wrt_map)
  then have "sorted_wrt (\<lambda>a b. entry_key m b \<le> entry_key m a) (heap_ordered m h)"
    by (simp add: heap_ordered_def sorted_wrt_rev)
  then show ?thesis
    by (simp add: region_evictable_occupancy_ascending_less_comparator_def entry_key_def not_less)
qed

lemma regions_add:
  "add st r = Some st' \<Longrightarrow> regions st' = regions st @ [(fresh_handle (regions st), r)]"
  by (auto simp: add_def heap_push_def update_frame set_heap_handle_def split: if_splits)

lemma memory_add:
  "add st r = Some st' \<Longrightarrow>
     memory st' = (memory st)(r := (memory st r)\<lparr>heap_handle := Some (fresh_handle (regions st))\<rparr>)"
  by (auto simp: add_def heap_push_def update_frame set_heap_handle_def split: if_splits)


lemma regions_moved:
  "regions (moved st a b) =
     (case heap_handle (memory st a) of None \<Rightarrow> regions st | Some x \<Rightarrow> heap_erase (regions st) x)
       @ [(fresh_handle (case heap_handle (memory st a) of None \<Rightarrow> regions st
                          | Some x \<Rightarrow> heap_erase (regions st) x), b)]"
  by (simp add: moved_def heap_push_def set_heap_handle_def split: option.splits)

lemma handle_moved:
  "heap_handle (memory (moved st a b) a) =
     Some (fresh_handle (case heap_handle (memory st a) of None \<Rightarrow> regions st
                          | Some x \<Rightarrow> heap_erase (regions st) x))"
  by (simp add: moved_def heap_push_def set_heap_handle_def split: option.splits)

lemma memory_moved_other:
  "r \<noteq> a \<Longrightarrow> memory (moved st a b) r = memory st r"
  by (simp add: moved_def heap_push_def set_heap_handle_def split: option.splits)

lemma entry_key_moved: "entry_key (memory (moved st a b)) = entry_key (memory st)"
  by (rule ext) (simp add: moved_def heap_push_def set_heap_handle_def entry_key_def split: option.splits)

text \<open>The concrete groups, evaluated.\<close>

lemmas example_defs = example_group_two_def example_group_one_def example_group_def
  example_memory_def example_config_def region_group_def add_def heap_push_def
  fresh_handle_def set_heap_handle_def update_defs reclaimer_can_block_def


lemma ex1_h0: "heap_handle (memory example_group_one 0) = Some 1"
  by (simp add: example_defs)



lemma ex2_regions: "regions example_group_two = [(1, 0), (2, 1)]"
  by (simp add: example_defs)

lemma ex2_h0: "heap_handle (memory example_group_two 0) = Some 1"
  by (simp add: example_defs)

text \<open>
  The scenario of the spec: with a throttle threshold of 1000, after \<^verbatim>\<open>add\<close> of a
  region of 600 execution is permitted; \<^verbatim>\<open>update(+500)\<close> gives a total of 1100 and
  forbids it; \<^verbatim>\<open>update(-200)\<close> gives 900, permits it and signals relief once.
\<close>

lemma scenario_throttle:
  "execution_permitted example_group_one \<and>
   total_memory (update example_group_one 500) = 1100 \<and>
   \<not> execution_permitted (update example_group_one 500) \<and>
   total_memory (update (update example_group_one 500) (- 200)) = 900 \<and>
   execution_permitted (update (update example_group_one 500) (- 200)) \<and>
   relief_signal_calls (update (update example_group_one 500) (- 200)) =
     relief_signal_calls (update example_group_one 500) + 1"
  by (simp add: example_defs execution_permitted_def)



text \<open>
  C7. \<^verbatim>\<open>moved\<close> leaves \<open>total_memory\<close> and \<open>hard_total_memory\<close> as they are, and
  the ordered iteration of the priority structure without the entry pushed by the call
  is the ordered iteration before the call without the entry of the old region's handle:
  the other entries keep their relative order.
\<close>

theorem moved_frame:
  "total_memory (moved st a b) = total_memory st \<and>
   hard_total_memory (moved st a b) = hard_total_memory st \<and>
   (\<exists>y. heap_handle (memory (moved st a b) a) = Some y \<and>
      filter (\<lambda>e. fst e \<noteq> y) (heap_ordered (memory (moved st a b)) (regions (moved st a b))) =
      filter (\<lambda>e. Some (fst e) \<noteq> heap_handle (memory st a)) (heap_ordered (memory st) (regions st)))"
proof (intro conjI)
  show "total_memory (moved st a b) = total_memory st"
    by (simp add: moved_def heap_push_def set_heap_handle_def split: option.splits)
  show "hard_total_memory (moved st a b) = hard_total_memory st"
    by (simp add: moved_def heap_push_def set_heap_handle_def split: option.splits)
  let ?rest = "case heap_handle (memory st a) of None \<Rightarrow> regions st
     | Some x \<Rightarrow> heap_erase (regions st) x"
  let ?y = "fresh_handle ?rest"
  have rest: "?rest = filter (\<lambda>e. Some (fst e) \<noteq> heap_handle (memory st a)) (regions st)"
    by (auto simp: heap_erase_def split: option.splits)
  have "filter (\<lambda>e. fst e \<noteq> ?y) ?rest = ?rest"
    by (rule filter_True) (use fresh_handle_new in blast)
  then have "filter (\<lambda>e. fst e \<noteq> ?y) (regions (moved st a b)) = ?rest"
    by (simp add: regions_moved)
  then have "filter (\<lambda>e. fst e \<noteq> ?y) (heap_ordered (memory (moved st a b)) (regions (moved st a b))) =
      heap_ordered (memory (moved st a b)) ?rest"
    by (simp only: filter_heap_ordered)
  also have "\<dots> = heap_ordered (memory st) ?rest"
    by (rule heap_ordered_cong) (rule entry_key_moved)
  also have "\<dots> = filter (\<lambda>e. Some (fst e) \<noteq> heap_handle (memory st a)) (heap_ordered (memory st) (regions st))"
    by (simp only: filter_heap_ordered rest [symmetric])
  finally have "filter (\<lambda>e. fst e \<noteq> ?y) (heap_ordered (memory (moved st a b)) (regions (moved st a b))) =
      filter (\<lambda>e. Some (fst e) \<noteq> heap_handle (memory st a)) (heap_ordered (memory st) (regions st))" .
  then show "\<exists>y. heap_handle (memory (moved st a b) a) = Some y \<and>
      filter (\<lambda>e. fst e \<noteq> y) (heap_ordered (memory (moved st a b)) (regions (moved st a b))) =
      filter (\<lambda>e. Some (fst e) \<noteq> heap_handle (memory st a)) (heap_ordered (memory st) (regions st))"
    using handle_moved [of st a b] by blast
qed

text \<open>
  C3, as the source has it. If the old region held a handle, \<^verbatim>\<open>moved\<close> removes the
  entry of that handle, pushes the new region, and stores the handle of the push in the
  old region; the new region, when it is another object, is not written.
\<close>

theorem moved_handle_on_old:
  "heap_handle (memory st old) = Some x \<Longrightarrow>
     regions (moved st old new) =
       heap_erase (regions st) x @ [(fresh_handle (heap_erase (regions st) x), new)] \<and>
     fresh_handle (heap_erase (regions st) x) \<notin> fst ` set (heap_erase (regions st) x) \<and>
     heap_handle (memory (moved st old new) old) = Some (fresh_handle (heap_erase (regions st) x)) \<and>
     (new \<noteq> old \<longrightarrow> memory (moved st old new) new = memory st new)"
  using fresh_handle_notin [of "heap_erase (regions st) x"]
  by (simp add: regions_moved handle_moved memory_moved_other)

theorem moved_handle_on_old_witness:
  "heap_handle (memory example_group_two 0) = Some 1 \<and>
   regions (moved example_group_two 0 2) = [(2, 1), (3, 2)] \<and>
   heap_handle (memory (moved example_group_two 0 2) 0) = Some 3 \<and>
   memory (moved example_group_two 0 2) 2 = memory example_group_two 2"
  using moved_handle_on_old [of example_group_two 0 1 2]
  by (simp add: ex2_h0 ex2_regions heap_erase_def fresh_handle_def)

text \<open>
  C3, as the spec has it, fails. The region at address 0 holds a handle in
  \<open>example_group_one\<close>; after \<^verbatim>\<open>moved\<close> from 0 to 1 the region at 1 holds no handle
  and the region at 0 holds one. No region holds a handle in \<open>example_group\<close>; after
  \<^verbatim>\<open>moved\<close> from 0 to 1 the priority structure has an entry and the region at 0 a
  handle.
\<close>

theorem moved_counterexample:
  "heap_handle (memory example_group_one 0) = Some 1 \<and>
   \<not> (heap_handle (memory (moved example_group_one 0 1) 1) \<noteq> None \<and>
      heap_handle (memory (moved example_group_one 0 1) 0) = None) \<and>
   heap_handle (memory example_group 0) = None \<and>
   \<not> (regions (moved example_group 0 1) = regions example_group \<and>
      heap_handle (memory (moved example_group 0 1) 0) = heap_handle (memory example_group 0))"
  by (simp add: moved_def heap_erase_def example_defs)

section \<open>The total of a group\<close>

lemma registered_wf_init:
  "\<forall>a. heap_handle (m a) = None \<Longrightarrow> registered_wf (region_group name c m)"
  by (simp add: registered_wf_def region_group_def)

lemma registered_wf_update: "registered_wf (update st d) = registered_wf st"
  by (simp add: registered_wf_def update_frame)

lemma registered_total_space_update:
  "registered_total_space (update st d) = registered_total_space st"
  by (simp add: registered_total_space_def update_frame)

lemma occupancy_set_handle:
  "(\<lambda>e. occupancy_total_space (((memory st)(r := (memory st r)\<lparr>heap_handle := x\<rparr>)) (snd e))) =
   (\<lambda>e. occupancy_total_space (memory st (snd e)))"
  by (rule ext) simp

lemma add_total:
  "add st r = Some st' \<Longrightarrow> total_memory st' = total_memory st + occupancy_total_space (memory st r)"
  by (auto simp: add_def heap_push_def update_frame set_heap_handle_def split: if_splits)

lemma add_registered:
  assumes "add st r = Some st'"
  shows "registered_total_space st' = registered_total_space st + occupancy_total_space (memory st r)"
  by (simp add: registered_total_space_def regions_add [OF assms] memory_add [OF assms]
      occupancy_set_handle del: fun_upd_apply)

lemma add_wf:
  assumes wf: "registered_wf st" and a: "add st r = Some st'"
  shows "registered_wf st'"
proof -
  have none: "heap_handle (memory st r) = None"
    using a by (auto simp: add_def split: if_splits)
  have fresh: "fresh_handle (regions st) \<notin> fst ` set (regions st)" by (rule fresh_handle_notin)
  have other: "\<And>e. e \<in> set (regions st) \<Longrightarrow> snd e \<noteq> r"
    using wf none by (auto simp: registered_wf_def)
  show ?thesis
    using wf fresh other
    by (auto simp: registered_wf_def regions_add [OF a] memory_add [OF a])
qed

lemma sum_list_erase:
  "distinct (map fst es) \<Longrightarrow> (x, r) \<in> set es \<Longrightarrow>
     sum_list (map f (filter (\<lambda>e. fst e \<noteq> x) es)) + f (x, r) = (sum_list (map f es) :: 64 word)"
proof (induction es)
  case Nil
  then show ?case by simp
next
  case (Cons e es)
  show ?case
  proof (cases "e = (x, r)")
    case True
    then have "x \<notin> fst ` set es" using Cons.prems by auto
    then have "filter (\<lambda>e. fst e \<noteq> x) es = es" by (auto intro: filter_True)
    then show ?thesis using True by simp
  next
    case False
    then have "fst e \<noteq> x" using Cons.prems by (cases e) force
    then show ?thesis using Cons False by (simp add: add.assoc)
  qed
qed

lemma del_none: "heap_handle (memory st r) = None \<Longrightarrow> del st r = st"
  by (simp add: del_def)

lemma del_some_frame:
  assumes "heap_handle (memory st r) = Some x"
  shows "regions (del st r) = heap_erase (regions st) x"
    and "memory (del st r) = (memory st)(r := (memory st r)\<lparr>heap_handle := None\<rparr>)"
    and "total_memory (del st r) = total_memory st - occupancy_total_space (memory st r)"
  using assms by (simp_all add: del_def Let_def update_frame set_heap_handle_def)

lemma del_registered:
  assumes wf: "registered_wf st" and h: "heap_handle (memory st r) = Some x"
  shows "registered_total_space (del st r) + occupancy_total_space (memory st r) =
         registered_total_space st"
proof -
  have d: "distinct (map fst (regions st))" and m: "(x, r) \<in> set (regions st)"
    using wf h by (auto simp: registered_wf_def)
  have "registered_total_space (del st r) =
      sum_list (map (\<lambda>e. occupancy_total_space (memory st (snd e)))
        (filter (\<lambda>e. fst e \<noteq> x) (regions st)))"
    by (simp add: registered_total_space_def del_some_frame [OF h] heap_erase_def
        occupancy_set_handle del: fun_upd_apply)
  then show ?thesis
    using sum_list_erase [OF d m, of "\<lambda>e. occupancy_total_space (memory st (snd e))"]
    by (simp add: registered_total_space_def)
qed

lemma del_wf:
  assumes wf: "registered_wf st"
  shows "registered_wf (del st r)"
proof (cases "heap_handle (memory st r)")
  case None
  then show ?thesis using wf by (simp add: del_none)
next
  case (Some x)
  have d: "distinct (map fst (regions st))" and m: "(x, r) \<in> set (regions st)"
    using wf Some by (auto simp: registered_wf_def)
  have uniq: "\<And>e. e \<in> set (regions st) \<Longrightarrow> fst e = x \<Longrightarrow> e = (x, r)"
    using d m by (metis eq_key_imp_eq_value prod.collapse)
  have other: "\<And>e. e \<in> set (regions st) \<Longrightarrow> fst e \<noteq> x \<Longrightarrow> snd e \<noteq> r"
    using wf Some by (auto simp: registered_wf_def)
  show ?thesis
    unfolding registered_wf_def del_some_frame [OF Some] heap_erase_def
  proof (intro conjI ballI allI impI)
    show "distinct (map fst (filter (\<lambda>e. fst e \<noteq> x) (regions st)))"
      using d by (simp add: distinct_map_filter)
  next
    fix e assume "e \<in> set (filter (\<lambda>e. fst e \<noteq> x) (regions st))"
    then show "heap_handle (((memory st)(r := (memory st r)\<lparr>heap_handle := None\<rparr>)) (snd e)) = Some (fst e)"
      using wf other by (auto simp: registered_wf_def)
  next
    fix p y
    assume a: "heap_handle (((memory st)(r := (memory st r)\<lparr>heap_handle := None\<rparr>)) p) = Some y"
    then have pr: "p \<noteq> r" by (auto split: if_splits)
    with a have in_r: "(y, p) \<in> set (regions st)" using wf by (auto simp: registered_wf_def)
    have "y \<noteq> x" using uniq [OF in_r] pr by auto
    with in_r show "(y, p) \<in> set (filter (\<lambda>e. fst e \<noteq> x) (regions st))" by simp
  qed
qed

lemma occupancy_changed_frame:
  "regions (occupancy_changed st r d) = regions st"
  "heap_handle (memory (occupancy_changed st r d) a) = heap_handle (memory st a)"
  "occupancy_total_space (memory (occupancy_changed st r d) a) =
     (if a = r then occupancy_total_space (memory st r) + d
      else occupancy_total_space (memory st a))"
  "total_memory (occupancy_changed st r d) =
     (if heap_handle (memory st r) \<noteq> None then total_memory st + d else total_memory st)"
  by (simp_all add: occupancy_changed_def Let_def update_frame)

lemma occupancy_changed_wf: "registered_wf st \<Longrightarrow> registered_wf (occupancy_changed st r d)"
  by (simp add: registered_wf_def occupancy_changed_frame)

lemma sum_list_other:
  "\<forall>e \<in> set es. snd e \<noteq> r \<Longrightarrow>
     sum_list (map (\<lambda>e. if snd e = r then v else f (snd e)) es) =
     (sum_list (map (\<lambda>e. f (snd e)) es) :: 64 word)"
  by (induction es) simp_all

lemma sum_list_change:
  "distinct (map fst es) \<Longrightarrow> (x, r) \<in> set es \<Longrightarrow> \<forall>e \<in> set es. snd e = r \<longrightarrow> fst e = x \<Longrightarrow>
     sum_list (map (\<lambda>e. if snd e = r then f r + d else f (snd e)) es) =
     sum_list (map (\<lambda>e. f (snd e)) es) + (d :: 64 word)"
proof (induction es)
  case Nil
  then show ?case by simp
next
  case (Cons e es)
  show ?case
  proof (cases "e = (x, r)")
    case True
    then have "x \<notin> fst ` set es" using Cons.prems(1) by auto
    have "\<forall>e' \<in> set es. snd e' \<noteq> r"
    proof
      fix e' assume in_es: "e' \<in> set es"
      show "snd e' \<noteq> r"
      proof
        assume "snd e' = r"
        then have "fst e' = x" using Cons.prems(3) in_es by simp
        then have "x \<in> fst ` set es" using in_es by (metis imageI)
        then show False using \<open>x \<notin> fst ` set es\<close> by simp
      qed
    qed
    then show ?thesis using True by (simp add: sum_list_other)
  next
    case False
    then have other: "snd e \<noteq> r" using Cons.prems(3) by (cases e) auto
    have "distinct (map fst es)" using Cons.prems(1) by simp
    moreover have "(x, r) \<in> set es" using False Cons.prems(2) by auto
    moreover have "\<forall>e \<in> set es. snd e = r \<longrightarrow> fst e = x" using Cons.prems(3) by simp
    ultimately have "sum_list (map (\<lambda>e. if snd e = r then f r + d else f (snd e)) es) =
        sum_list (map (\<lambda>e. f (snd e)) es) + d"
      by (rule Cons.IH)
    then show ?thesis using other by (simp add: add.assoc)
  qed
qed

lemma occupancy_changed_registered:
  assumes wf: "registered_wf st"
  shows "registered_total_space (occupancy_changed st r d) =
     (if heap_handle (memory st r) \<noteq> None then registered_total_space st + d
      else registered_total_space st)"
proof (cases "heap_handle (memory st r)")
  case None
  then have "\<forall>e \<in> set (regions st). snd e \<noteq> r"
    using wf by (auto simp: registered_wf_def)
  then show ?thesis
    using None sum_list_other [of "regions st" r "occupancy_total_space (memory st r) + d"
        "\<lambda>a. occupancy_total_space (memory st a)"]
    by (simp add: registered_total_space_def occupancy_changed_frame)
next
  case (Some x)
  have d: "distinct (map fst (regions st))" and m: "(x, r) \<in> set (regions st)"
    and u: "\<forall>e \<in> set (regions st). snd e = r \<longrightarrow> fst e = x"
    using wf Some by (auto simp: registered_wf_def)
  show ?thesis
    using Some sum_list_change [OF d m u, of "\<lambda>a. occupancy_total_space (memory st a)" d]
    by (simp add: registered_total_space_def occupancy_changed_frame)
qed

text \<open>
  One call keeps the registration invariant and the equality of the total with the
  registered space, and adds to the total the deltas it passes to \<^verbatim>\<open>update\<close>.
\<close>

lemma region_call_step:
  assumes wf: "registered_wf st0" and eq: "total_memory st0 = registered_total_space st0"
    and s1: "apply_region_call st0 c = Some st1"
  shows "registered_wf st1"
    and "total_memory st1 = registered_total_space st1"
    and "total_memory st1 = total_memory st0 + sum_list (region_call_deltas st0 c)"
proof -
  have "registered_wf st1 \<and> total_memory st1 = registered_total_space st1 \<and>
      total_memory st1 = total_memory st0 + sum_list (region_call_deltas st0 c)"
  proof (cases c)
    case (Region_add r)
    then have a: "add st0 r = Some st1" using s1 by simp
    then have none: "heap_handle (memory st0 r) = None" by (auto simp: add_def split: if_splits)
    show ?thesis
      using add_wf [OF wf a] add_total [OF a] add_registered [OF a] none Region_add eq
      by simp
  next
    case (Region_del r)
    then have s: "st1 = del st0 r" using s1 by simp
    show ?thesis
    proof (cases "heap_handle (memory st0 r)")
      case None
      then show ?thesis using Region_del s wf eq by (simp add: del_none)
    next
      case (Some x)
      have r: "registered_total_space st0 =
          registered_total_space st1 + occupancy_total_space (memory st0 r)"
        using del_registered [OF wf Some] s by simp
      have t: "total_memory st1 = total_memory st0 - occupancy_total_space (memory st0 r)"
        using del_some_frame(3) [OF Some] s by simp
      have "total_memory st1 = registered_total_space st1"
        unfolding t eq r by simp
      then show ?thesis
        using Region_del s Some del_wf [OF wf, of r] t by simp
    qed
  next
    case (Region_update r d)
    then have s: "st1 = occupancy_changed st0 r d" using s1 by simp
    show ?thesis
      unfolding s
      using occupancy_changed_wf [OF wf, of r d] occupancy_changed_registered [OF wf, of r d] eq
        Region_update
      by (simp add: occupancy_changed_frame)
  qed
  then show "registered_wf st1"
    and "total_memory st1 = registered_total_space st1"
    and "total_memory st1 = total_memory st0 + sum_list (region_call_deltas st0 c)"
    by blast+
qed

lemma region_calls_total:
  "registered_wf st0 \<Longrightarrow> total_memory st0 = registered_total_space st0 \<Longrightarrow>
   region_calls st0 cs = Some st \<Longrightarrow>
     total_memory st = total_memory st0 + sum_list (deltas_applied st0 cs) \<and>
     total_memory st = registered_total_space st"
proof (induction cs arbitrary: st0)
  case Nil
  then show ?case by simp
next
  case (Cons c cs)
  from Cons.prems(3) obtain st1 where s1: "apply_region_call st0 c = Some st1"
    and rest: "region_calls st1 cs = Some st"
    by (auto split: option.splits)
  note step = region_call_step [OF Cons.prems(1) Cons.prems(2) s1]
  have t2: "total_memory st = total_memory st1 + sum_list (deltas_applied st1 cs)"
    and e2: "total_memory st = registered_total_space st"
    using Cons.IH [OF step(1) step(2) rest] by blast+
  have "total_memory st = total_memory st0 + sum_list (deltas_applied st0 (c # cs))"
    unfolding t2 step(3) using s1 by (simp add: add.assoc)
  with e2 show ?case by blast
qed

lemma ex_add0: "add example_group 0 = Some example_group_one"
  by (simp add: example_group_one_def add_def example_group_def region_group_def
      example_memory_def Let_def heap_push_def)

text \<open>
  C5. After a sequence of \<^verbatim>\<open>add\<close>, \<^verbatim>\<open>del\<close> and \<^verbatim>\<open>update\<close> calls on a new group,
  each \<^verbatim>\<open>update(delta)\<close> reporting the change by \<open>delta\<close> of the total space of a
  region, and no call failing, \<open>total_memory\<close> is the sum of the deltas passed to
  \<^verbatim>\<open>update\<close> (by \<^verbatim>\<open>add\<close>, by \<^verbatim>\<open>del\<close> and by the reports), and it is the sum of the
  total space of the regions registered in the group. The sums are those of 64-bit
  arithmetic.
\<close>

theorem total_memory_is_sum_of_deltas:
  "\<forall>a. heap_handle (m a) = None \<Longrightarrow> region_calls (region_group name c m) cs = Some st \<Longrightarrow>
     total_memory st = sum_list (deltas_applied (region_group name c m) cs) \<and>
     total_memory st = registered_total_space st"
proof -
  assume a: "\<forall>a. heap_handle (m a) = None"
    and r: "region_calls (region_group name c m) cs = Some st"
  have z: "total_memory (region_group name c m) = 0"
    "registered_total_space (region_group name c m) = 0"
    by (simp_all add: region_group_def registered_total_space_def)
  have e: "total_memory (region_group name c m) = registered_total_space (region_group name c m)"
    by (simp add: z)
  note ct = region_calls_total [OF registered_wf_init [OF a] e r]
  have "total_memory st = sum_list (deltas_applied (region_group name c m) cs)"
    using ct [THEN conjunct1] by (simp add: z)
  with ct show ?thesis by blast
qed

theorem total_memory_is_sum_of_deltas_witness:
  "(\<forall>a. heap_handle (example_memory a) = None) \<and>
   region_calls example_group [Region_add 0, Region_update 0 500, Region_update 0 (- 200)] =
     Some (occupancy_changed (occupancy_changed example_group_one 0 500) 0 (- 200)) \<and>
   total_memory (occupancy_changed (occupancy_changed example_group_one 0 500) 0 (- 200)) =
     sum_list (deltas_applied example_group
       [Region_add 0, Region_update 0 500, Region_update 0 (- 200)]) \<and>
   total_memory (occupancy_changed (occupancy_changed example_group_one 0 500) 0 (- 200)) =
     registered_total_space (occupancy_changed (occupancy_changed example_group_one 0 500) 0 (- 200))"
proof -
  have m: "\<forall>a. heap_handle (example_memory a) = None"
    by (simp add: example_memory_def)
  have r: "region_calls (region_group ''g'' example_config example_memory)
      [Region_add 0, Region_update 0 500, Region_update 0 (- 200)] =
      Some (occupancy_changed (occupancy_changed example_group_one 0 500) 0 (- 200))"
    using ex_add0 by (simp add: example_group_def)
  show ?thesis
    unfolding example_group_def
    using total_memory_is_sum_of_deltas [OF m r] m r by blast
qed

text \<open>
  The run of the witness is the scenario of the spec: the total is 900, which is the
  total space of the one registered region, and the deltas are 600, 500 and -200.
\<close>

lemma scenario_total:
  "total_memory (occupancy_changed (occupancy_changed example_group_one 0 500) 0 (- 200)) = 900 \<and>
   occupancy_total_space
     (memory (occupancy_changed (occupancy_changed example_group_one 0 500) 0 (- 200)) 0) = 900 \<and>
   deltas_applied example_group [Region_add 0, Region_update 0 500, Region_update 0 (- 200)] =
     [600, 500, - 200]"
  by (simp add: ex_add0 occupancy_changed_frame ex1_h0)
    (simp add: example_defs)

section \<open>The queue and the releaser\<close>

lemma relief_signal_frame:
  "shutdown_requested (relief_signal st) = shutdown_requested st"
  "blocked_requests (relief_signal st) = blocked_requests st"
  "allocated (relief_signal st) = allocated st"
  "failed (relief_signal st) = failed st"
  "next_request (relief_signal st) = next_request st"
  "releaser (relief_signal st) =
     (if releaser st = Suspended_awaiting_relief then Running else releaser st)"
  by (simp_all add: relief_signal_def)

lemma update_queue_frame:
  "shutdown_requested (update st d) = shutdown_requested st"
  "blocked_requests (update st d) = blocked_requests st"
  "allocated (update st d) = allocated st"
  "failed (update st d) = failed st"
  "next_request (update st d) = next_request st"
  "releaser (update st d) = releaser st \<or>
     (releaser st = Suspended_awaiting_relief \<and> releaser (update st d) = Running)"
  by (simp_all add: update_defs)

lemma update_hard_queue_frame:
  "shutdown_requested (update_hard st d) = shutdown_requested st"
  "blocked_requests (update_hard st d) = blocked_requests st"
  "allocated (update_hard st d) = allocated st"
  "failed (update_hard st d) = failed st"
  "next_request (update_hard st d) = next_request st"
  "releaser (update_hard st d) = releaser st \<or>
     (releaser st = Suspended_awaiting_relief \<and> releaser (update_hard st d) = Running)"
  by (simp_all add: update_hard_def update_defs)

lemma set_heap_handle_frame:
  "shutdown_requested (set_heap_handle st r x) = shutdown_requested st"
  "blocked_requests (set_heap_handle st r x) = blocked_requests st"
  "allocated (set_heap_handle st r x) = allocated st"
  "failed (set_heap_handle st r x) = failed st"
  "next_request (set_heap_handle st r x) = next_request st"
  "releaser (set_heap_handle st r x) = releaser st"
  by (simp_all add: set_heap_handle_def)

lemma add_queue_frame:
  assumes "add st r = Some st'"
  shows "shutdown_requested st' = shutdown_requested st"
    "blocked_requests st' = blocked_requests st"
    "allocated st' = allocated st"
    "failed st' = failed st"
    "next_request st' = next_request st"
    "releaser st' = releaser st \<or>
       (releaser st = Suspended_awaiting_relief \<and> releaser st' = Running)"
proof -
  obtain s1 d where s: "st' = update s1 d"
    and f: "shutdown_requested s1 = shutdown_requested st" "blocked_requests s1 = blocked_requests st"
      "allocated s1 = allocated st" "failed s1 = failed st" "next_request s1 = next_request st"
      "releaser s1 = releaser st"
    using assms
    by (auto simp: add_def Let_def heap_push_def set_heap_handle_frame split: if_splits)
  show "shutdown_requested st' = shutdown_requested st"
    "blocked_requests st' = blocked_requests st"
    "allocated st' = allocated st"
    "failed st' = failed st"
    "next_request st' = next_request st"
    "releaser st' = releaser st \<or>
       (releaser st = Suspended_awaiting_relief \<and> releaser st' = Running)"
    using update_queue_frame [of s1 d] by (simp_all add: s f)
qed

lemma del_queue_frame:
  "shutdown_requested (del st r) = shutdown_requested st"
  "blocked_requests (del st r) = blocked_requests st"
  "allocated (del st r) = allocated st"
  "failed (del st r) = failed st"
  "next_request (del st r) = next_request st"
  "releaser (del st r) = releaser st \<or>
     (releaser st = Suspended_awaiting_relief \<and> releaser (del st r) = Running)"
proof -
  show "shutdown_requested (del st r) = shutdown_requested st"
    "blocked_requests (del st r) = blocked_requests st"
    "allocated (del st r) = allocated st"
    "failed (del st r) = failed st"
    "next_request (del st r) = next_request st"
    by (simp_all add: del_def Let_def update_queue_frame set_heap_handle_frame split: option.splits)
  show "releaser (del st r) = releaser st \<or>
     (releaser st = Suspended_awaiting_relief \<and> releaser (del st r) = Running)"
  proof (cases "heap_handle (memory st r)")
    case None
    then show ?thesis by (simp add: del_def)
  next
    case (Some x)
    let ?s = "(set_heap_handle st r None)\<lparr>regions := heap_erase (regions (set_heap_handle st r None)) x\<rparr>"
    have "del st r = update ?s (- occupancy_total_space (memory ?s r))"
      using Some by (simp add: del_def Let_def)
    then show ?thesis
      using update_queue_frame(6) [of ?s "- occupancy_total_space (memory ?s r)"]
      by (simp add: set_heap_handle_frame)
  qed
qed

lemma moved_queue_frame:
  "shutdown_requested (moved st a b) = shutdown_requested st"
  "blocked_requests (moved st a b) = blocked_requests st"
  "allocated (moved st a b) = allocated st"
  "failed (moved st a b) = failed st"
  "next_request (moved st a b) = next_request st"
  "releaser (moved st a b) = releaser st"
  by (simp_all add: moved_def heap_push_def set_heap_handle_def split: option.splits)

lemma fold_expiry:
  "shutdown_requested (fold (\<lambda>e s. on_request_expiry n s (fst e)) xs st) = shutdown_requested st \<and>
   blocked_requests (fold (\<lambda>e s. on_request_expiry n s (fst e)) xs st) = blocked_requests st \<and>
   allocated (fold (\<lambda>e s. on_request_expiry n s (fst e)) xs st) = allocated st \<and>
   next_request (fold (\<lambda>e s. on_request_expiry n s (fst e)) xs st) = next_request st \<and>
   releaser (fold (\<lambda>e s. on_request_expiry n s (fst e)) xs st) = releaser st \<and>
   failed (fold (\<lambda>e s. on_request_expiry n s (fst e)) xs st) =
     failed st @ map (\<lambda>e. (fst e, blocked_requests_timed_out_error n)) xs"
  by (induction xs arbitrary: st) (simp_all add: on_request_expiry_def)

lemma advance_clock_frame:
  "shutdown_requested (advance_clock st t) = shutdown_requested st"
  "releaser (advance_clock st t) = releaser st"
  "allocated (advance_clock st t) = allocated st"
  "next_request (advance_clock st t) = next_request st"
  "on_expiry_name (blocked_requests (advance_clock st t)) = on_expiry_name (blocked_requests st)"
  "queued (blocked_requests (advance_clock st t)) =
     filter (\<lambda>e. \<not> snd e \<le> max (clock st) t) (queued (blocked_requests st))"
  "failed (advance_clock st t) =
     failed st @ map (\<lambda>e. (fst e, blocked_requests_timed_out_error (on_expiry_name (blocked_requests st))))
       (filter (\<lambda>e. snd e \<le> max (clock st) t) (queued (blocked_requests st)))"
  by (simp_all add: advance_clock_def expire_requests_def Let_def fold_expiry)

lemma enqueue_frame:
  "shutdown_requested (enqueue st t) = shutdown_requested st"
  "releaser (enqueue st t) = releaser st"
  "allocated (enqueue st t) = allocated st"
  "failed (enqueue st t) = failed st"
  "next_request (enqueue st t) = Suc (next_request st)"
  "on_expiry_name (blocked_requests (enqueue st t)) = on_expiry_name (blocked_requests st)"
  "queued (blocked_requests (enqueue st t)) = queued (blocked_requests st) @ [(next_request st, t)]"
  by (simp_all add: enqueue_def)

lemma shutdown_frame:
  "shutdown_requested (shutdown st) = True"
  "blocked_requests (shutdown st) = blocked_requests st"
  "allocated (shutdown st) = allocated st"
  "failed (shutdown st) = failed st"
  "next_request (shutdown st) = next_request st"
  "releaser (shutdown st) =
     (if releaser st = Suspended_awaiting_relief then Running else releaser st)"
  by (simp_all add: shutdown_def relief_signal_def)

text \<open>What one iteration does to the queue and to the task.\<close>

lemma releaser_iteration_cases:
  "releaser_iteration st =
     (if shutdown_requested st then st\<lparr>releaser := Terminated\<rparr>
      else if queued (blocked_requests st) \<noteq> [] \<and> execution_permitted st
      then st\<lparr>blocked_requests := (blocked_requests st)\<lparr>queued := tl (queued (blocked_requests st))\<rparr>,
              allocated := allocated st @ [fst (hd (queued (blocked_requests st)))]\<rparr>
      else relief_wait st)"
  by (cases "queued (blocked_requests st)")
    (simp_all add: releaser_iteration_def queue_empty_def execute_one_def)

lemma run_releaser_frame:
  "shutdown_requested (run_releaser st) = shutdown_requested st"
  "next_request (run_releaser st) = next_request st"
  "failed (run_releaser st) = failed st"
  "on_expiry_name (blocked_requests (run_releaser st)) = on_expiry_name (blocked_requests st)"
  by (simp_all add: run_releaser_def releaser_iteration_cases relief_wait_def)

lemma run_releaser_queue:
  "(queued (blocked_requests (run_releaser st)) = queued (blocked_requests st) \<and>
    allocated (run_releaser st) = allocated st) \<or>
   (queued (blocked_requests st) \<noteq> [] \<and>
    queued (blocked_requests (run_releaser st)) = tl (queued (blocked_requests st)) \<and>
    allocated (run_releaser st) = allocated st @ [fst (hd (queued (blocked_requests st)))])"
  by (simp add: run_releaser_def releaser_iteration_cases relief_wait_def)

lemma run_releaser_task:
  "releaser st \<noteq> No_task \<Longrightarrow> releaser (run_releaser st) \<noteq> No_task"
  "releaser (run_releaser st) = Terminated \<Longrightarrow> releaser st = Terminated \<or> shutdown_requested st"
  by (auto simp: run_releaser_def releaser_iteration_cases relief_wait_def split: if_splits)

lemma event_task_step:
  assumes "apply_event st e = Some st'"
  shows "shutdown_requested st' \<Longrightarrow> shutdown_requested st \<or> e = Shutdown"
    and "releaser st \<noteq> No_task \<Longrightarrow> releaser st' \<noteq> No_task"
    and "releaser st' = Terminated \<Longrightarrow> releaser st = Terminated \<or> shutdown_requested st"
    and "shutdown_requested st \<Longrightarrow> shutdown_requested st'"
proof -
  have "(shutdown_requested st' \<longrightarrow> shutdown_requested st \<or> e = Shutdown) \<and>
      (releaser st \<noteq> No_task \<longrightarrow> releaser st' \<noteq> No_task) \<and>
      (releaser st' = Terminated \<longrightarrow> releaser st = Terminated \<or> shutdown_requested st) \<and>
      (shutdown_requested st \<longrightarrow> shutdown_requested st')"
  proof (cases e)
    case (Call c)
    show ?thesis
    proof (cases c)
      case (Add r)
      then have "add st r = Some st'" using assms Call by simp
      from add_queue_frame(1,6) [OF this] show ?thesis by auto
    next
      case (Del r)
      then have "st' = del st r" using assms Call by simp
      with del_queue_frame(1,6) [of st r] show ?thesis by auto
    next
      case (Update d)
      then have "st' = update st d" using assms Call by simp
      with update_queue_frame(1,6) [of st d] show ?thesis by auto
    qed
  next
    case (Update_hard d)
    then have "st' = update_hard st d" using assms by simp
    with update_hard_queue_frame(1,6) [of st d] show ?thesis by auto
  next
    case (Moved a b)
    then show ?thesis using assms by (auto simp: moved_queue_frame)
  next
    case (Enqueue t)
    then show ?thesis using assms by (auto simp: enqueue_frame)
  next
    case (Advance_clock t)
    then show ?thesis using assms by (auto simp: advance_clock_frame)
  next
    case Run_releaser
    then have "st' = run_releaser st" using assms by simp
    with run_releaser_task [of st] run_releaser_frame(1) [of st] show ?thesis by auto
  next
    case Shutdown
    then show ?thesis using assms by (auto simp: shutdown_frame split: if_splits)
  qed
  then show "shutdown_requested st' \<Longrightarrow> shutdown_requested st \<or> e = Shutdown"
    and "releaser st \<noteq> No_task \<Longrightarrow> releaser st' \<noteq> No_task"
    and "releaser st' = Terminated \<Longrightarrow> releaser st = Terminated \<or> shutdown_requested st"
    and "shutdown_requested st \<Longrightarrow> shutdown_requested st'"
    by blast+
qed

lemma events_task:
  "events st0 evs = Some st \<Longrightarrow>
     (shutdown_requested st \<longrightarrow> shutdown_requested st0 \<or> Shutdown \<in> set evs) \<and>
     (releaser st0 \<noteq> No_task \<longrightarrow> releaser st \<noteq> No_task) \<and>
     ((releaser st0 = Terminated \<longrightarrow> shutdown_requested st0) \<longrightarrow>
        (releaser st = Terminated \<longrightarrow> shutdown_requested st))"
proof (induction evs arbitrary: st0)
  case Nil
  then show ?case by simp
next
  case (Cons e evs)
  from Cons.prems obtain st1 where s1: "apply_event st0 e = Some st1" and rest: "events st1 evs = Some st"
    by (auto split: option.splits)
  note step = event_task_step [OF s1]
  note IH = Cons.IH [OF rest]
  have c1: "shutdown_requested st \<longrightarrow> shutdown_requested st0 \<or> Shutdown \<in> set (e # evs)"
    using step(1) IH by auto
  have c2: "releaser st0 \<noteq> No_task \<longrightarrow> releaser st \<noteq> No_task"
    using step(2) IH by blast
  have c3: "(releaser st0 = Terminated \<longrightarrow> shutdown_requested st0) \<longrightarrow>
        (releaser st = Terminated \<longrightarrow> shutdown_requested st)"
    using step(3) step(4) IH by blast
  show ?case using c1 c2 c3 by blast
qed

text \<open>
  C6. One iteration of the releaser executes the front request, and only that one, when
  shutdown is not requested, the queue is not empty and \<^verbatim>\<open>execution_permitted()\<close>
  holds, and executes nothing otherwise; a running task terminates in an iteration
  exactly when it observes \<open>shutdown_requested\<close>. In every run of a group whose task
  was started, the task is terminated only if \<^verbatim>\<open>shutdown()\<close> was called and
  \<open>shutdown_requested\<close> is set, and the future returned by \<^verbatim>\<open>shutdown()\<close> is resolved
  exactly when the task is terminated.
\<close>

theorem releaser_task:
  "allocated (releaser_iteration st) =
     allocated st @
       (if \<not> shutdown_requested st \<and> queued (blocked_requests st) \<noteq> [] \<and> execution_permitted st
        then [fst (hd (queued (blocked_requests st)))] else []) \<and>
   queued (blocked_requests (releaser_iteration st)) =
     (if \<not> shutdown_requested st \<and> queued (blocked_requests st) \<noteq> [] \<and> execution_permitted st
      then tl (queued (blocked_requests st)) else queued (blocked_requests st)) \<and>
   (releaser st = Running \<longrightarrow>
      (releaser (releaser_iteration st) = Terminated) = shutdown_requested st) \<and>
   (reclaimer_can_block c \<and> events (region_group name c m) evs = Some st' \<longrightarrow>
      (releaser st' = Terminated \<longrightarrow> Shutdown \<in> set evs \<and> shutdown_requested st') \<and>
      releaser_future_ready st' = (releaser st' = Terminated))"
proof (intro conjI impI)
  show "allocated (releaser_iteration st) =
     allocated st @
       (if \<not> shutdown_requested st \<and> queued (blocked_requests st) \<noteq> [] \<and> execution_permitted st
        then [fst (hd (queued (blocked_requests st)))] else [])"
    by (simp add: releaser_iteration_cases relief_wait_def)
  show "queued (blocked_requests (releaser_iteration st)) =
     (if \<not> shutdown_requested st \<and> queued (blocked_requests st) \<noteq> [] \<and> execution_permitted st
      then tl (queued (blocked_requests st)) else queued (blocked_requests st))"
    by (simp add: releaser_iteration_cases relief_wait_def)
  show "releaser st = Running \<Longrightarrow>
      (releaser (releaser_iteration st) = Terminated) = shutdown_requested st"
    by (simp add: releaser_iteration_cases relief_wait_def)
next
  assume a: "reclaimer_can_block c \<and> events (region_group name c m) evs = Some st'"
  let ?s = "region_group name c m"
  have init: "releaser ?s = Running" "\<not> shutdown_requested ?s"
    using a by (simp_all add: region_group_def)
  note t = events_task [of ?s evs st']
  show "releaser_future_ready st' = (releaser st' = Terminated)"
    using t a init by (simp add: releaser_future_ready_def)
  assume "releaser st' = Terminated"
  then show "Shutdown \<in> set evs" "shutdown_requested st'"
    using t a init by auto
qed

theorem releaser_task_witness:
  "releaser example_group = Running \<and>
   (releaser (releaser_iteration example_group) = Terminated) = shutdown_requested example_group \<and>
   reclaimer_can_block example_config \<and>
   events example_group [Shutdown, Run_releaser] = Some (run_releaser (shutdown example_group)) \<and>
   releaser (run_releaser (shutdown example_group)) = Terminated \<and>
   shutdown_requested (run_releaser (shutdown example_group)) \<and>
   releaser_future_ready (run_releaser (shutdown example_group))"
proof -
  have cb: "reclaimer_can_block example_config"
    by (simp add: reclaimer_can_block_def example_config_def)
  have r: "releaser example_group = Running"
    using cb by (simp add: example_group_def region_group_def)
  have ev: "events (region_group ''g'' example_config example_memory) [Shutdown, Run_releaser] =
      Some (run_releaser (shutdown example_group))"
    by (simp add: example_group_def)
  have t: "releaser (run_releaser (shutdown example_group)) = Terminated"
    using r by (simp add: run_releaser_def releaser_iteration_def shutdown_def relief_signal_def)
  note th = releaser_task [where st = example_group and c = example_config and name = "''g''"
      and m = example_memory and evs = "[Shutdown, Run_releaser]"
      and st' = "run_releaser (shutdown example_group)"]
  show ?thesis
    unfolding example_group_def [symmetric]
    using th cb r ev t unfolding example_group_def [symmetric] by blast
qed

lemma same_queue_step:
  "blocked_requests st' = blocked_requests st \<Longrightarrow> allocated st' = allocated st \<Longrightarrow>
   next_request st' = next_request st \<Longrightarrow>
   (queue_wf st \<longrightarrow> queue_wf st') \<and> (settled r st \<longrightarrow> settled r st') \<and>
   on_expiry_name (blocked_requests st') = on_expiry_name (blocked_requests st)"
  by (simp add: queue_wf_def settled_def)

lemma queue_wf_enqueue: "queue_wf st \<Longrightarrow> queue_wf (enqueue st t)"
  by (auto simp: queue_wf_def enqueue_frame less_Suc_eq)

lemma settled_enqueue: "settled r st \<Longrightarrow> settled r (enqueue st t)"
  by (auto simp: settled_def enqueue_frame)

lemma queue_wf_advance_clock: "queue_wf st \<Longrightarrow> queue_wf (advance_clock st t)"
  by (auto simp: queue_wf_def advance_clock_frame distinct_map_filter)

lemma settled_advance_clock: "settled r st \<Longrightarrow> settled r (advance_clock st t)"
  by (auto simp: settled_def advance_clock_frame)

lemma queue_wf_run_releaser:
  assumes "queue_wf st"
  shows "queue_wf (run_releaser st)"
proof -
  from run_releaser_queue [of st] show ?thesis
  proof
    assume "queued (blocked_requests (run_releaser st)) = queued (blocked_requests st) \<and>
      allocated (run_releaser st) = allocated st"
    then show ?thesis using assms by (simp add: queue_wf_def run_releaser_frame)
  next
    assume a: "queued (blocked_requests st) \<noteq> [] \<and>
      queued (blocked_requests (run_releaser st)) = tl (queued (blocked_requests st)) \<and>
      allocated (run_releaser st) = allocated st @ [fst (hd (queued (blocked_requests st)))]"
    then obtain e es where q: "queued (blocked_requests st) = e # es"
      by (cases "queued (blocked_requests st)") auto
    have q': "queued (blocked_requests (run_releaser st)) = es"
      and al: "allocated (run_releaser st) = allocated st @ [fst e]"
      using a by (simp_all add: q)
    have d: "distinct (map fst es)" and ne: "fst e \<notin> fst ` set es"
      and lt: "fst e < next_request st" "\<forall>x \<in> set es. fst x < next_request st"
      and al0: "\<forall>r \<in> set (allocated st). r < next_request st"
      and dis: "fst e \<notin> set (allocated st)" "\<forall>x \<in> set es. fst x \<notin> set (allocated st)"
      using assms by (simp_all add: queue_wf_def q)
    have "\<forall>x \<in> set es. fst x \<noteq> fst e" using ne by (metis imageI)
    then show ?thesis
      unfolding queue_wf_def q' al run_releaser_frame
      using d lt al0 dis by simp
  qed
qed

lemma settled_run_releaser:
  assumes "settled r st"
  shows "settled r (run_releaser st)"
proof -
  from run_releaser_queue [of st] show ?thesis
  proof
    assume "queued (blocked_requests (run_releaser st)) = queued (blocked_requests st) \<and>
      allocated (run_releaser st) = allocated st"
    then show ?thesis using assms by (simp add: settled_def run_releaser_frame)
  next
    assume a: "queued (blocked_requests st) \<noteq> [] \<and>
      queued (blocked_requests (run_releaser st)) = tl (queued (blocked_requests st)) \<and>
      allocated (run_releaser st) = allocated st @ [fst (hd (queued (blocked_requests st)))]"
    then obtain e es where q: "queued (blocked_requests st) = e # es"
      by (cases "queued (blocked_requests st)") auto
    show ?thesis
      using assms a by (auto simp: settled_def run_releaser_frame q)
  qed
qed

lemma event_queue_step:
  assumes "apply_event st e = Some st'"
  shows "queue_wf st \<Longrightarrow> queue_wf st'"
    and "settled r st \<Longrightarrow> settled r st'"
    and "on_expiry_name (blocked_requests st') = on_expiry_name (blocked_requests st)"
proof -
  have "(queue_wf st \<longrightarrow> queue_wf st') \<and> (settled r st \<longrightarrow> settled r st') \<and>
      on_expiry_name (blocked_requests st') = on_expiry_name (blocked_requests st)"
  proof (cases e)
    case (Call c)
    show ?thesis
    proof (cases c)
      case (Add a)
      then have a: "add st a = Some st'" using assms Call by simp
      show ?thesis
        by (rule same_queue_step [OF add_queue_frame(2) [OF a] add_queue_frame(3) [OF a]
              add_queue_frame(5) [OF a]])
    next
      case (Del a)
      then have s: "st' = del st a" using assms Call by simp
      show ?thesis unfolding s
        by (rule same_queue_step [OF del_queue_frame(2,3,5)])
    next
      case (Update d)
      then have s: "st' = update st d" using assms Call by simp
      show ?thesis unfolding s
        by (rule same_queue_step [OF update_queue_frame(2,3,5)])
    qed
  next
    case (Update_hard d)
    then have s: "st' = update_hard st d" using assms by simp
    show ?thesis unfolding s
      by (rule same_queue_step [OF update_hard_queue_frame(2,3,5)])
  next
    case (Moved a b)
    then have s: "st' = moved st a b" using assms by simp
    show ?thesis unfolding s
      by (rule same_queue_step [OF moved_queue_frame(2,3,5)])
  next
    case (Enqueue t)
    then have s: "st' = enqueue st t" using assms by simp
    show ?thesis unfolding s
      by (simp add: queue_wf_enqueue settled_enqueue enqueue_frame)
  next
    case (Advance_clock t)
    then have s: "st' = advance_clock st t" using assms by simp
    show ?thesis unfolding s
      by (simp add: queue_wf_advance_clock settled_advance_clock advance_clock_frame)
  next
    case Run_releaser
    then have s: "st' = run_releaser st" using assms by simp
    show ?thesis unfolding s
      by (simp add: queue_wf_run_releaser settled_run_releaser run_releaser_frame)
  next
    case Shutdown
    then have s: "st' = shutdown st" using assms by simp
    show ?thesis unfolding s
      by (rule same_queue_step [OF shutdown_frame(2,3,5)])
  qed
  then show "queue_wf st \<Longrightarrow> queue_wf st'"
    and "settled r st \<Longrightarrow> settled r st'"
    and "on_expiry_name (blocked_requests st') = on_expiry_name (blocked_requests st)"
    by blast+
qed

lemma events_queue:
  "events st0 evs = Some st \<Longrightarrow>
     (queue_wf st0 \<longrightarrow> queue_wf st) \<and> (settled r st0 \<longrightarrow> settled r st) \<and>
     on_expiry_name (blocked_requests st) = on_expiry_name (blocked_requests st0)"
proof (induction evs arbitrary: st0)
  case Nil
  then show ?case by simp
next
  case (Cons e evs)
  from Cons.prems obtain st1 where s1: "apply_event st0 e = Some st1" and rest: "events st1 evs = Some st"
    by (auto split: option.splits)
  show ?case
    using event_queue_step(1) [OF s1] event_queue_step(2) [OF s1, of r]
      event_queue_step(3) [OF s1] Cons.IH [OF rest] by simp
qed

lemma queue_wf_init: "queue_wf (region_group name c m)"
  by (simp add: queue_wf_def region_group_def)

text \<open>
  C9. In every run of a group built with a name, a request that is queued when its
  deadline elapses leaves the queue, fails with \<open>blocked_requests_timed_out_error\<close>
  carrying that name, has not been executed, and is neither executed nor queued again
  in any continuation of the run.
\<close>

theorem expired_request_fails:
  assumes run: "events (region_group name c m) evs = Some st"
    and queued: "(r, d) \<in> set (queued (blocked_requests st))"
    and due: "d \<le> t"
  shows "r \<notin> fst ` set (queued (blocked_requests (advance_clock st t))) \<and>
    (r, blocked_requests_timed_out_error name) \<in> set (failed (advance_clock st t)) \<and>
    r \<notin> set (allocated (advance_clock st t)) \<and>
    (\<forall>evs' st'. events (advance_clock st t) evs' = Some st' \<longrightarrow>
       r \<notin> set (allocated st') \<and> r \<notin> fst ` set (queued (blocked_requests st')))"
proof -
  note q = events_queue [OF run, of r]
  have wf: "queue_wf st" using q queue_wf_init by blast
  have nm: "on_expiry_name (blocked_requests st) = name"
    using q by (simp add: region_group_def)
  have only: "\<And>d'. (r, d') \<in> set (queued (blocked_requests st)) \<Longrightarrow> d' = d"
    using wf queued by (auto simp: queue_wf_def dest: eq_key_imp_eq_value)
  have gone: "r \<notin> fst ` set (queued (blocked_requests (advance_clock st t)))"
    using only due by (auto simp: advance_clock_frame)
  have fl: "(r, blocked_requests_timed_out_error name) \<in> set (failed (advance_clock st t))"
    using queued due by (force simp: advance_clock_frame nm)
  have na: "r \<notin> set (allocated (advance_clock st t))"
    using wf queued by (auto simp: queue_wf_def advance_clock_frame)
  have "r < next_request st" using wf queued by (auto simp: queue_wf_def)
  then have s: "settled r (advance_clock st t)"
    using gone na by (simp add: settled_def advance_clock_frame)
  have "\<forall>evs' st'. events (advance_clock st t) evs' = Some st' \<longrightarrow>
       r \<notin> set (allocated st') \<and> r \<notin> fst ` set (queued (blocked_requests st'))"
  proof (intro allI impI)
    fix evs' st'
    assume "events (advance_clock st t) evs' = Some st'"
    from events_queue [OF this, of r] s have "settled r st'" by blast
    then show "r \<notin> set (allocated st') \<and> r \<notin> fst ` set (queued (blocked_requests st'))"
      by (simp add: settled_def)
  qed
  with gone fl na show ?thesis by blast
qed


theorem expired_request_fails_witness:
  "events example_group [Enqueue 5] = Some (enqueue example_group 5) \<and>
   (0, 5) \<in> set (queued (blocked_requests (enqueue example_group 5))) \<and>
   (5 :: nat) \<le> 7 \<and>
   0 \<notin> fst ` set (queued (blocked_requests (advance_clock (enqueue example_group 5) 7))) \<and>
   (0, blocked_requests_timed_out_error ''g'') \<in> set (failed (advance_clock (enqueue example_group 5) 7)) \<and>
   0 \<notin> set (allocated (run_releaser (advance_clock (enqueue example_group 5) 7)))"
proof -
  have run: "events (region_group ''g'' example_config example_memory) [Enqueue 5] =
      Some (enqueue example_group 5)"
    by (simp add: example_group_def)
  have q: "(0, 5) \<in> set (queued (blocked_requests (enqueue example_group 5)))"
    by (simp add: enqueue_frame example_group_def region_group_def)
  have due: "(5 :: nat) \<le> 7" by simp
  have ev: "events (advance_clock (enqueue example_group 5) 7) [Run_releaser] =
      Some (run_releaser (advance_clock (enqueue example_group 5) 7))"
    by simp
  note th = expired_request_fails [OF run q due]
  from th ev have "0 \<notin> set (allocated (run_releaser (advance_clock (enqueue example_group 5) 7)))"
    by blast
  with th run q due show ?thesis
    unfolding example_group_def [symmetric] by blast
qed

end
